theory Spec2Isabelle
  imports Complex_Main "HOL-Library.AList"
begin

section \<open>Voxel engine (src/src/voxel\_engine.py)\<close>

text \<open>
  Grid coordinates and colours are Python integer triples. A Python \<open>dict\<close> keeps its keys
  in insertion order, and \<open>get_visible_faces\<close> iterates \<open>self.voxels.items()\<close>, so the
  voxel dictionary is an association list: assigning to an existing key replaces the value
  in place, assigning to a new key appends, \<open>del\<close> drops the entry. These are exactly
  \<^const>\<open>AList.update\<close> and \<^const>\<open>AList.delete\<close>.
\<close>

type_synonym coord = "int \<times> int \<times> int"
type_synonym rgb = "int \<times> int \<times> int"

datatype error = IndexError | KeyError

record Voxel =
  color :: rgb

text \<open>One entry of the list returned by \<open>get_visible_faces\<close>: the keys 'pos', 'face', 'color'.\<close>

record face_rec =
  face_pos :: coord
  face_name :: string
  face_color :: rgb

record VoxelEngine =
  grid_size :: int
  voxels :: "(coord \<times> Voxel) list"
  current_color_index :: int
  undo_stack :: "(string \<times> coord \<times> Voxel option) list"
  max_undo :: int
  visible_faces_cache :: "face_rec list option"

definition COLORS :: "rgb list" where
  "COLORS = [(255, 100, 50), (50, 150, 255), (50, 255, 100), (255, 50, 150),
             (255, 255, 50), (150, 50, 255), (255, 255, 255), (100, 100, 100)]"

text \<open>Python list indexing: a negative index counts from the end, anything else out of
  range raises IndexError.\<close>

definition py_getitem :: "'a list \<Rightarrow> int \<Rightarrow> error + 'a" where
  "py_getitem xs i =
     (if 0 \<le> i \<and> i < int (length xs) then Inr (xs ! nat i)
      else if - int (length xs) \<le> i \<and> i < 0 then Inr (xs ! nat (int (length xs) + i))
      else Inl IndexError)"

definition VoxelEngine_init :: "int \<Rightarrow> VoxelEngine" where
  "VoxelEngine_init g =
     \<lparr>grid_size = g, voxels = [], current_color_index = 0, undo_stack = [],
      max_undo = 50, visible_faces_cache = None\<rparr>"

definition current_color :: "VoxelEngine \<Rightarrow> error + rgb" where
  "current_color s = py_getitem COLORS (current_color_index s)"

definition next_color :: "VoxelEngine \<Rightarrow> VoxelEngine" where
  "next_color s =
     s\<lparr>current_color_index := (current_color_index s + 1) mod int (length COLORS)\<rparr>"

definition prev_color :: "VoxelEngine \<Rightarrow> VoxelEngine" where
  "prev_color s =
     s\<lparr>current_color_index := (current_color_index s - 1) mod int (length COLORS)\<rparr>"

definition is_valid_position :: "VoxelEngine \<Rightarrow> int \<Rightarrow> int \<Rightarrow> int \<Rightarrow> bool" where
  "is_valid_position s x y z \<longleftrightarrow>
     0 \<le> x \<and> x < grid_size s \<and> 0 \<le> y \<and> y < grid_size s \<and> 0 \<le> z \<and> z < grid_size s"

definition invalidate_cache :: "VoxelEngine \<Rightarrow> VoxelEngine" where
  "invalidate_cache s = s\<lparr>visible_faces_cache := None\<rparr>"

text \<open>\<open>_push_undo\<close>: append, then drop the oldest entry once when the stack is longer
  than \<open>max_undo\<close> (\<open>pop(0)\<close> on a list that is non-empty after the append).\<close>

definition push_undo :: "string \<Rightarrow> coord \<Rightarrow> Voxel option \<Rightarrow> VoxelEngine \<Rightarrow> VoxelEngine" where
  "push_undo action pos voxel s =
     (let st = undo_stack s @ [(action, pos, voxel)]
      in s\<lparr>undo_stack := (if int (length st) > max_undo s then tl st else st)\<rparr>)"

text \<open>\<open>place_voxel\<close>. The colour argument is optional; \<open>color or self.current_color\<close> reads
  the palette only when no colour is given (a colour triple is a non-empty tuple, hence
  truthy), and that read is the only place that can raise.\<close>

definition place_voxel ::
  "int \<Rightarrow> int \<Rightarrow> int \<Rightarrow> rgb option \<Rightarrow> VoxelEngine \<Rightarrow> error + (bool \<times> VoxelEngine)" where
  "place_voxel x y z col s =
     (if \<not> is_valid_position s x y z then Inr (False, s)
      else
        let pos = (x, y, z) in
        case (case col of Some c \<Rightarrow> Inr c | None \<Rightarrow> current_color s) of
          Inl e \<Rightarrow> Inl e
        | Inr c \<Rightarrow>
            let old_voxel = map_of (voxels s) pos;
                s1 = push_undo ''place'' pos old_voxel s;
                s2 = s1\<lparr>voxels := AList.update pos \<lparr>color = c\<rparr> (voxels s1)\<rparr>
            in Inr (True, invalidate_cache s2))"

definition remove_voxel :: "int \<Rightarrow> int \<Rightarrow> int \<Rightarrow> VoxelEngine \<Rightarrow> bool \<times> VoxelEngine" where
  "remove_voxel x y z s =
     (let pos = (x, y, z) in
      case map_of (voxels s) pos of
        None \<Rightarrow> (False, s)
      | Some old_voxel \<Rightarrow>
          let s1 = push_undo ''remove'' pos (Some old_voxel) s;
              s2 = s1\<lparr>voxels := AList.delete pos (voxels s1)\<rparr>
          in (True, invalidate_cache s2))"

definition get_voxel :: "VoxelEngine \<Rightarrow> int \<Rightarrow> int \<Rightarrow> int \<Rightarrow> Voxel option" where
  "get_voxel s x y z = map_of (voxels s) (x, y, z)"

definition has_voxel :: "VoxelEngine \<Rightarrow> int \<Rightarrow> int \<Rightarrow> int \<Rightarrow> bool" where
  "has_voxel s x y z \<longleftrightarrow> map_of (voxels s) (x, y, z) \<noteq> None"

text \<open>\<open>undo\<close>: \<open>pop()\<close> takes the last entry. Only the strings 'place' and 'remove' are ever
  pushed; any other action string falls through both branches.\<close>

definition undo :: "VoxelEngine \<Rightarrow> bool \<times> VoxelEngine" where
  "undo s =
     (if undo_stack s = [] then (False, s)
      else
        case last (undo_stack s) of (action, pos, voxel) \<Rightarrow>
          let s1 = s\<lparr>undo_stack := butlast (undo_stack s)\<rparr>;
              s2 = (if action = ''place'' then
                      (case voxel of
                         None \<Rightarrow>
                           (if map_of (voxels s1) pos \<noteq> None
                            then s1\<lparr>voxels := AList.delete pos (voxels s1)\<rparr> else s1)
                       | Some v \<Rightarrow> s1\<lparr>voxels := AList.update pos v (voxels s1)\<rparr>)
                    else if action = ''remove'' then
                      (case voxel of
                         Some v \<Rightarrow> s1\<lparr>voxels := AList.update pos v (voxels s1)\<rparr>
                       | None \<Rightarrow> s1)
                    else s1)
          in (True, invalidate_cache s2))"

definition directions :: "(coord \<times> string) list" where
  "directions = [((1, 0, 0), ''right''), ((-1, 0, 0), ''left''), ((0, 1, 0), ''top''),
                 ((0, -1, 0), ''bottom''), ((0, 0, 1), ''front''), ((0, 0, -1), ''back'')]"

text \<open>The recomputation loop of \<open>get_visible_faces\<close>: for every entry of the dictionary in
  order, for every direction in order, a face record when the neighbouring cell is not a
  key. \<open>has_voxel\<close> does not look at the grid bounds.\<close>

definition faces_of_voxel :: "VoxelEngine \<Rightarrow> coord \<times> Voxel \<Rightarrow> face_rec list" where
  "faces_of_voxel s pv =
     (case pv of ((x, y, z), voxel) \<Rightarrow>
        map (\<lambda>(d, face). \<lparr>face_pos = (x, y, z), face_name = face, face_color = color voxel\<rparr>)
          (filter (\<lambda>((dx, dy, dz), face). \<not> has_voxel s (x + dx) (y + dy) (z + dz))
             directions))"

definition compute_faces :: "VoxelEngine \<Rightarrow> face_rec list" where
  "compute_faces s = concat (map (faces_of_voxel s) (voxels s))"

definition get_visible_faces :: "VoxelEngine \<Rightarrow> face_rec list \<times> VoxelEngine" where
  "get_visible_faces s =
     (case visible_faces_cache s of
        Some faces \<Rightarrow> (faces, s)
      | None \<Rightarrow>
          let faces = compute_faces s
          in (faces, s\<lparr>visible_faces_cache := Some faces\<rparr>))"

definition clear :: "VoxelEngine \<Rightarrow> VoxelEngine" where
  "clear s = invalidate_cache (s\<lparr>voxels := [], undo_stack := []\<rparr>)"

text \<open>The operations a caller can issue against one engine, and their sequencing. A raised
  exception ends the run.\<close>

datatype op =
    Place int int int "rgb option"
  | Remove int int int
  | Undo
  | Clear
  | NextColor
  | PrevColor
  | GetVisibleFaces

fun apply_op :: "op \<Rightarrow> VoxelEngine \<Rightarrow> error + VoxelEngine" where
  "apply_op (Place x y z c) s =
     (case place_voxel x y z c s of Inl e \<Rightarrow> Inl e | Inr (b, s') \<Rightarrow> Inr s')"
| "apply_op (Remove x y z) s = Inr (snd (remove_voxel x y z s))"
| "apply_op Undo s = Inr (snd (undo s))"
| "apply_op Clear s = Inr (clear s)"
| "apply_op NextColor s = Inr (next_color s)"
| "apply_op PrevColor s = Inr (prev_color s)"
| "apply_op GetVisibleFaces s = Inr (snd (get_visible_faces s))"

fun run :: "op list \<Rightarrow> VoxelEngine \<Rightarrow> error + VoxelEngine" where
  "run [] s = Inr s"
| "run (o1 # os) s = (case apply_op o1 s of Inl e \<Rightarrow> Inl e | Inr s' \<Rightarrow> run os s')"

fun undo_times :: "nat \<Rightarrow> VoxelEngine \<Rightarrow> VoxelEngine" where
  "undo_times 0 s = s"
| "undo_times (Suc n) s = undo_times n (snd (undo s))"

text \<open>
  The state invariant of the engine: every key of the voxel dictionary passes the bounds
  check, keys are pairwise distinct, every position recorded in the undo stack passes the
  bounds check, a filled cache holds what the recomputation loop yields on the current
  voxels, and the palette index is a valid index into \<open>COLORS\<close>.
\<close>

definition position_ok :: "VoxelEngine \<Rightarrow> coord \<Rightarrow> bool" where
  "position_ok s pos = (case pos of (x, y, z) \<Rightarrow> is_valid_position s x y z)"

definition keys_in_bounds :: "VoxelEngine \<Rightarrow> bool" where
  "keys_in_bounds s \<longleftrightarrow> list_all (position_ok s) (map fst (voxels s))"

definition undo_in_bounds :: "VoxelEngine \<Rightarrow> bool" where
  "undo_in_bounds s \<longleftrightarrow>
     list_all (\<lambda>(action, pos, voxel). position_ok s pos) (undo_stack s)"

definition cache_coherent :: "VoxelEngine \<Rightarrow> bool" where
  "cache_coherent s \<longleftrightarrow>
     (case visible_faces_cache s of None \<Rightarrow> True | Some faces \<Rightarrow> faces = compute_faces s)"

definition palette_ok :: "VoxelEngine \<Rightarrow> bool" where
  "palette_ok s \<longleftrightarrow>
     0 \<le> current_color_index s \<and> current_color_index s < int (length COLORS)"

definition engine_inv :: "VoxelEngine \<Rightarrow> bool" where
  "engine_inv s \<longleftrightarrow>
     keys_in_bounds s \<and> distinct (map fst (voxels s)) \<and> undo_in_bounds s \<and>
     cache_coherent s \<and> palette_ok s"

text \<open>The edit operations proper, \<open>place_voxel\<close> and \<open>remove_voxel\<close>.\<close>

fun is_edit :: "op \<Rightarrow> bool" where
  "is_edit (Place x y z c) = True"
| "is_edit (Remove x y z) = True"
| "is_edit _ = False"

text \<open>Two engine states with the same dictionary content (whatever the insertion order),
  the same undo stack and the same settings.\<close>

definition same_content :: "VoxelEngine \<Rightarrow> VoxelEngine \<Rightarrow> bool" where
  "same_content s t \<longleftrightarrow>
     map_of (voxels s) = map_of (voxels t) \<and> undo_stack s = undo_stack t \<and>
     grid_size s = grid_size t \<and> max_undo s = max_undo t \<and>
     current_color_index s = current_color_index t"

text \<open>Vocabulary for the face counts: the cells of a filled \<open>k \<times> k \<times> k\<close> cube with corner
  \<open>(x0, y0, z0)\<close>, two cells that differ by one step along one axis, and the number of
  directions in which a cell has no neighbour in a set of occupied cells.\<close>

definition cube_cells :: "int \<Rightarrow> int \<Rightarrow> int \<Rightarrow> nat \<Rightarrow> coord list" where
  "cube_cells x0 y0 z0 k =
     [(x, y, z). x \<leftarrow> [x0..x0 + int k - 1], y \<leftarrow> [y0..y0 + int k - 1],
                 z \<leftarrow> [z0..z0 + int k - 1]]"

definition axis_adjacent :: "coord \<Rightarrow> coord \<Rightarrow> bool" where
  "axis_adjacent p q =
     (case p of (x, y, z) \<Rightarrow> case q of (x', y', z') \<Rightarrow>
        \<bar>x - x'\<bar> + \<bar>y - y'\<bar> + \<bar>z - z'\<bar> = 1)"

definition open_sides :: "coord set \<Rightarrow> coord \<Rightarrow> nat" where
  "open_sides K p =
     (case p of (x, y, z) \<Rightarrow>
        length (filter (\<lambda>((dx, dy, dz), face). (x + dx, y + dy, z + dz) \<notin> K) directions))"

definition ends :: "int set \<Rightarrow> int \<Rightarrow> nat" where
  "ends X x = of_bool (x + 1 \<notin> X) + of_bool (x - 1 \<notin> X)"

section \<open>Gesture detector (src/src/gesture\_detector.py)\<close>

text \<open>
  Landmark coordinates and scores are Python floats; they are modelled as real numbers, so
  that comparisons against the thresholds are exact. A landmark frame is a Python sequence
  indexed by the landmark numbers below; an index outside the frame raises IndexError.
\<close>

datatype Gesture = NONE | POINT | PINCH | GRAB | PALM | PEACE

record Landmark =
  lm_x :: real
  lm_y :: real
  lm_z :: real

definition WRIST :: int where "WRIST = 0"
definition THUMB_CMC :: int where "THUMB_CMC = 1"
definition THUMB_MCP :: int where "THUMB_MCP = 2"
definition THUMB_IP :: int where "THUMB_IP = 3"
definition THUMB_TIP :: int where "THUMB_TIP = 4"
definition INDEX_MCP :: int where "INDEX_MCP = 5"
definition INDEX_PIP :: int where "INDEX_PIP = 6"
definition INDEX_DIP :: int where "INDEX_DIP = 7"
definition INDEX_TIP :: int where "INDEX_TIP = 8"
definition MIDDLE_MCP :: int where "MIDDLE_MCP = 9"
definition MIDDLE_PIP :: int where "MIDDLE_PIP = 10"
definition MIDDLE_DIP :: int where "MIDDLE_DIP = 11"
definition MIDDLE_TIP :: int where "MIDDLE_TIP = 12"
definition RING_MCP :: int where "RING_MCP = 13"
definition RING_PIP :: int where "RING_PIP = 14"
definition RING_DIP :: int where "RING_DIP = 15"
definition RING_TIP :: int where "RING_TIP = 16"
definition PINKY_MCP :: int where "PINKY_MCP = 17"
definition PINKY_PIP :: int where "PINKY_PIP = 18"
definition PINKY_DIP :: int where "PINKY_DIP = 19"
definition PINKY_TIP :: int where "PINKY_TIP = 20"

text \<open>The dictionary \<open>scores\<close> with its four keys.\<close>

record Scores =
  pinch :: real
  palm :: real
  grab :: real
  peace :: real

record GestureDetector =
  last_scores :: "Scores option"
  pinch_threshold :: real
  curl_threshold :: real
  last_gesture :: Gesture
  gesture_hold_frames :: int
  min_hold_frames :: int
  state :: string
  state_frames :: int

definition GestureDetector_init :: GestureDetector where
  "GestureDetector_init =
     \<lparr>last_scores = None, pinch_threshold = 0.8, curl_threshold = 0.03,
      last_gesture = NONE, gesture_hold_frames = 0, min_hold_frames = 3,
      state = ''IDLE'', state_frames = 0\<rparr>"

text \<open>Sequencing of computations that may raise.\<close>

definition bind_err :: "error + 'a \<Rightarrow> ('a \<Rightarrow> error + 'b) \<Rightarrow> error + 'b" where
  "bind_err m f = (case m of Inl e \<Rightarrow> Inl e | Inr v \<Rightarrow> f v)"

definition dist_lm :: "Landmark \<Rightarrow> Landmark \<Rightarrow> real" where
  "dist_lm p1 p2 =
     sqrt ((lm_x p1 - lm_x p2)\<^sup>2 + (lm_y p1 - lm_y p2)\<^sup>2 + (lm_z p1 - lm_z p2)\<^sup>2)"

definition get_hand_scale :: "Landmark list \<Rightarrow> error + real" where
  "get_hand_scale landmarks =
     bind_err (py_getitem landmarks WRIST) (\<lambda>wrist.
     bind_err (py_getitem landmarks INDEX_MCP) (\<lambda>index_mcp.
     bind_err (py_getitem landmarks MIDDLE_MCP) (\<lambda>middle_mcp.
       let d1 = dist_lm wrist index_mcp; d2 = dist_lm wrist middle_mcp
       in Inr (max (max d1 d2) 0.01))))"

definition finger_tips :: "(string \<times> int \<times> int \<times> int) list" where
  "finger_tips =
     [(''index'', (INDEX_MCP, INDEX_PIP, INDEX_TIP)),
      (''middle'', (MIDDLE_MCP, MIDDLE_PIP, MIDDLE_TIP)),
      (''ring'', (RING_MCP, RING_PIP, RING_TIP)),
      (''pinky'', (PINKY_MCP, PINKY_PIP, PINKY_TIP))]"

text \<open>\<open>_is_finger_extended\<close>: a finger name that is not a key of \<open>finger_tips\<close> raises
  KeyError.\<close>

definition is_finger_extended :: "GestureDetector \<Rightarrow> Landmark list \<Rightarrow> string \<Rightarrow> error + bool" where
  "is_finger_extended s landmarks finger =
     (case map_of finger_tips finger of
        None \<Rightarrow> Inl KeyError
      | Some (mcp, pip, tip) \<Rightarrow>
          bind_err (py_getitem landmarks mcp) (\<lambda>mcp_lm.
          bind_err (py_getitem landmarks pip) (\<lambda>pip_lm.
          bind_err (py_getitem landmarks tip) (\<lambda>tip_lm.
            let mcp_y = lm_y mcp_lm; pip_y = lm_y pip_lm; tip_y = lm_y tip_lm
            in Inr (tip_y < pip_y - curl_threshold s \<and> tip_y < mcp_y)))))"

definition is_thumb_extended :: "Landmark list \<Rightarrow> error + bool" where
  "is_thumb_extended landmarks =
     bind_err (py_getitem landmarks THUMB_TIP) (\<lambda>thumb_tip.
     bind_err (py_getitem landmarks THUMB_MCP) (\<lambda>thumb_mcp.
     bind_err (py_getitem landmarks INDEX_MCP) (\<lambda>index_mcp.
       let thumb_tip_dist = \<bar>lm_x thumb_tip - lm_x index_mcp\<bar>;
           thumb_mcp_dist = \<bar>lm_x thumb_mcp - lm_x index_mcp\<bar>
       in Inr (thumb_tip_dist > thumb_mcp_dist + 0.05))))"

definition get_gesture_scores :: "GestureDetector \<Rightarrow> Landmark list \<Rightarrow> real \<Rightarrow> error + Scores" where
  "get_gesture_scores s landmarks scale =
     bind_err (py_getitem landmarks THUMB_TIP) (\<lambda>thumb_tip.
     bind_err (py_getitem landmarks INDEX_TIP) (\<lambda>index_tip.
       let pinch_dist = dist_lm thumb_tip index_tip;
           norm_pinch = pinch_dist / scale;
           pinch_score = max 0 (min 1 (1 - norm_pinch / 0.5))
       in
     bind_err (is_finger_extended s landmarks ''index'') (\<lambda>e0.
     bind_err (is_finger_extended s landmarks ''middle'') (\<lambda>e1.
     bind_err (is_finger_extended s landmarks ''ring'') (\<lambda>e2.
     bind_err (is_finger_extended s landmarks ''pinky'') (\<lambda>e3.
     bind_err (is_thumb_extended landmarks) (\<lambda>thumb_ext.
       let ext_count = length (filter id [e0, e1, e2, e3]);
           is_peace = (e0 \<and> e1 \<and> \<not> e2 \<and> \<not> e3)
       in Inr \<lparr>pinch = pinch_score,
                palm = (if ext_count = 4 \<and> thumb_ext then 1 else 0),
                grab = (if ext_count = 0 \<and> \<not> thumb_ext then 1 else 0),
                peace = (if is_peace then 1 else 0)\<rparr>)))))))"

text \<open>
  Step 2 of \<open>detect\<close>, the state transitions: from the scores and the current state, the
  next state and the raw label \<open>new_gesture\<close> of this tick. The IDLE test is an \<open>if\<close> of
  its own, so a hand that has just appeared is handled as HAND\_PRESENT in the same tick.
  The label starts as NONE and stays so where no branch assigns it.
\<close>

definition transition :: "Scores \<Rightarrow> string \<Rightarrow> string \<times> Gesture" where
  "transition scores st0 =
     (let pinch_score = pinch scores;
          st = (if st0 = ''IDLE'' then ''HAND_PRESENT'' else st0)
      in
        if st = ''HAND_PRESENT'' then
          (if pinch_score > 0.4 then (''PRE_PINCH'', NONE)
           else if palm scores > 0.8 then (st, PALM)
           else if grab scores > 0.8 then (st, GRAB)
           else if peace scores > 0.8 then (st, PEACE)
           else (st, POINT))
        else if st = ''PRE_PINCH'' then
          ((if pinch_score > 0.7 then ''PINCHED''
            else if pinch_score < 0.3 then ''HAND_PRESENT'' else st), POINT)
        else if st = ''PINCHED'' then
          (if pinch_score < 0.5 then (''RELEASE'', NONE) else (st, PINCH))
        else if st = ''RELEASE'' then
          ((if pinch_score < 0.3 then ''HAND_PRESENT''
            else if pinch_score > 0.8 then st else st), POINT)
        else (st, NONE))"

text \<open>Step 3 of \<open>detect\<close>, the debounce of the output label, with the fast path for PINCH.\<close>

definition debounce :: "Gesture \<Rightarrow> GestureDetector \<Rightarrow> Gesture \<times> GestureDetector" where
  "debounce new_gesture s =
     (let s1 = (if new_gesture = last_gesture s
                then s\<lparr>gesture_hold_frames := gesture_hold_frames s + 1\<rparr>
                else s\<lparr>gesture_hold_frames := 1, last_gesture := new_gesture\<rparr>)
      in if new_gesture = PINCH \<and> state s1 = ''PINCHED'' then (PINCH, s1)
         else if gesture_hold_frames s1 \<ge> min_hold_frames s1 then (new_gesture, s1)
         else (NONE, s1))"

text \<open>The body of \<open>detect\<close> from the point where the scores are known.\<close>

definition detect_from_scores :: "Scores \<Rightarrow> GestureDetector \<Rightarrow> Gesture \<times> GestureDetector" where
  "detect_from_scores scores s =
     (let s0 = s\<lparr>last_scores := Some scores\<rparr>;
          (st, new_gesture) = transition scores (state s0)
      in debounce new_gesture (s0\<lparr>state := st\<rparr>))"

definition detect ::
  "Landmark list option \<Rightarrow> GestureDetector \<Rightarrow> error + (Gesture \<times> GestureDetector)" where
  "detect landmarks s =
     (case landmarks of
        None \<Rightarrow>
          Inr (NONE, s\<lparr>state := ''IDLE'', gesture_hold_frames := 0, last_gesture := NONE\<rparr>)
      | Some lms \<Rightarrow>
          bind_err (get_hand_scale lms) (\<lambda>scale.
            if scale = 0 then Inr (NONE, s)
            else bind_err (get_gesture_scores s lms scale) (\<lambda>scores.
                   Inr (detect_from_scores scores s))))"

text \<open>
  A run of the state machine over a sequence of score sets, one per tick with a usable
  hand frame: for every tick the detector before the tick, the raw label of the tick and
  the effective gesture returned to the caller.
\<close>

fun detect_run :: "Scores list \<Rightarrow> GestureDetector \<Rightarrow> (GestureDetector \<times> Gesture \<times> Gesture) list" where
  "detect_run [] s = []"
| "detect_run (sc # scs) s =
     (s, snd (transition sc (state s)), fst (detect_from_scores sc s))
       # detect_run scs (snd (detect_from_scores sc s))"

text \<open>The states after each tick of a run.\<close>

fun states_after :: "Scores list \<Rightarrow> GestureDetector \<Rightarrow> string list" where
  "states_after [] s = []"
| "states_after (sc # scs) s =
     state (snd (detect_from_scores sc s)) # states_after scs (snd (detect_from_scores sc s))"

text \<open>A score set with the given pinch score and no other gesture scoring.\<close>

definition pinch_only :: "real \<Rightarrow> Scores" where
  "pinch_only p = \<lparr>pinch = p, palm = 0, grab = 0, peace = 0\<rparr>"

text \<open>The number of equal labels at the end of a list of labels.\<close>

definition streak :: "Gesture list \<Rightarrow> nat" where
  "streak labels =
     (if labels = [] then 0 else length (takeWhile (\<lambda>g. g = last labels) (rev labels)))"

section \<open>Motion sanity filter (src/src/hand\_tracker.py)\<close>

text \<open>The fields of \<open>HandTracker\<close> that \<open>_is_velocity_sane\<close> reads and writes. Timestamps are
  integer milliseconds; the elapsed time in seconds and the speed are reals.\<close>

record HandTracker =
  frame_timestamp_ms :: int
  last_sane_landmarks :: "Landmark list option"
  last_sane_timestamp :: int

definition MAX_SPEED :: real where
  "MAX_SPEED = 5.0"

definition is_velocity_sane ::
  "Landmark list \<Rightarrow> int \<Rightarrow> HandTracker \<Rightarrow> error + (bool \<times> HandTracker)" where
  "is_velocity_sane landmarks timestamp_ms s =
     (case last_sane_landmarks s of
        None \<Rightarrow>
          Inr (True, s\<lparr>last_sane_landmarks := Some landmarks,
                        last_sane_timestamp := timestamp_ms\<rparr>)
      | Some prev_landmarks \<Rightarrow>
          let dt = real_of_int (timestamp_ms - last_sane_timestamp s) / 1000 in
          if dt \<le> 0 then Inr (True, s)
          else
            bind_err (py_getitem landmarks 0) (\<lambda>wrist.
            bind_err (py_getitem prev_landmarks 0) (\<lambda>prev_wrist.
              let dx = lm_x wrist - lm_x prev_wrist;
                  dy = lm_y wrist - lm_y prev_wrist;
                  dz = lm_z wrist - lm_z prev_wrist;
                  dist = sqrt (dx * dx + dy * dy + dz * dz);
                  speed = dist / dt
              in if speed > MAX_SPEED then Inr (False, s)
                 else Inr (True, s\<lparr>last_sane_landmarks := Some landmarks,
                                    last_sane_timestamp := timestamp_ms\<rparr>))))"

section \<open>Invariant of the voxel engine\<close>

lemma compute_faces_cong:
  "voxels s' = voxels s \<Longrightarrow> compute_faces s' = compute_faces s"
proof -
  assume v: "voxels s' = voxels s"
  have "faces_of_voxel s' = faces_of_voxel s"
    by (rule ext) (simp add: faces_of_voxel_def has_voxel_def v)
  then show ?thesis by (simp add: compute_faces_def v)
qed

lemma position_ok_cong:
  "grid_size s' = grid_size s \<Longrightarrow> position_ok s' = position_ok s"
  by (rule ext) (simp add: position_ok_def is_valid_position_def split: prod.splits)

lemma keys_in_bounds_iff:
  "keys_in_bounds s \<longleftrightarrow> (\<forall>p \<in> fst ` set (voxels s). position_ok s p)"
  by (auto simp: keys_in_bounds_def list_all_iff)

lemma undo_in_bounds_iff:
  "undo_in_bounds s \<longleftrightarrow> (\<forall>e \<in> set (undo_stack s). position_ok s (fst (snd e)))"
  by (auto simp: undo_in_bounds_def list_all_iff)

lemma engine_invI:
  assumes "grid_size s' = grid_size s"
    and "fst ` set (voxels s') \<subseteq> A" and "\<forall>p \<in> A. position_ok s p"
    and "distinct (map fst (voxels s'))"
    and "set (undo_stack s') \<subseteq> U" and "\<forall>e \<in> U. position_ok s (fst (snd e))"
    and "cache_coherent s'"
    and "current_color_index s' = current_color_index s" and "palette_ok s"
  shows "engine_inv s'"
  using assms position_ok_cong [OF assms(1)]
  by (auto simp: engine_inv_def keys_in_bounds_iff undo_in_bounds_iff palette_ok_def)

lemma engine_inv_init: "engine_inv (VoxelEngine_init g)"
  by (simp add: engine_inv_def VoxelEngine_init_def keys_in_bounds_def undo_in_bounds_def
      cache_coherent_def palette_ok_def COLORS_def)

lemma push_undo_fields [simp]:
  "voxels (push_undo a p v s) = voxels s"
  "grid_size (push_undo a p v s) = grid_size s"
  "max_undo (push_undo a p v s) = max_undo s"
  "current_color_index (push_undo a p v s) = current_color_index s"
  "visible_faces_cache (push_undo a p v s) = visible_faces_cache s"
  by (simp_all add: push_undo_def Let_def)

lemma push_undo_stack_subset:
  "set (undo_stack (push_undo a p v s)) \<subseteq> insert (a, p, v) (set (undo_stack s))"
proof -
  have "set (tl (undo_stack s @ [(a, p, v)])) \<subseteq> set (undo_stack s @ [(a, p, v)])"
    by (metis list.set_sel(2) subsetI tl_Nil)
  then show ?thesis by (auto simp: push_undo_def Let_def)
qed

lemma current_color_ok:
  "palette_ok s \<Longrightarrow> current_color s = Inr (COLORS ! nat (current_color_index s))"
  by (simp add: palette_ok_def current_color_def py_getitem_def Let_def)

lemma delete_subset: "set (AList.delete k al) \<subseteq> set al"
  by (auto simp: AList.delete_eq)

lemma place_voxel_inv:
  assumes "engine_inv s"
  shows "\<exists>b s'. place_voxel x y z c s = Inr (b, s') \<and> engine_inv s' \<and> grid_size s' = grid_size s"
proof (cases "is_valid_position s x y z")
  case False
  with assms show ?thesis by (auto simp: place_voxel_def)
next
  case True
  from assms have pal: "palette_ok s" by (simp add: engine_inv_def)
  obtain col where col: "(case c of Some c' \<Rightarrow> Inr c' | None \<Rightarrow> current_color s) = Inr col"
    using current_color_ok [OF pal] by (cases c) simp_all
  let ?s1 = "push_undo ''place'' (x, y, z) (map_of (voxels s) (x, y, z)) s"
  let ?s' = "invalidate_cache (?s1\<lparr>voxels := AList.update (x, y, z) \<lparr>color = col\<rparr> (voxels ?s1)\<rparr>)"
  have eq: "place_voxel x y z c s = Inr (True, ?s')"
    using True col by (simp add: place_voxel_def Let_def)
  have ok: "position_ok s (x, y, z)" using True by (simp add: position_ok_def)
  have "engine_inv ?s'"
  proof (rule engine_invI [where s = s])
    show "grid_size ?s' = grid_size s" by (simp add: invalidate_cache_def)
    show "fst ` set (voxels ?s') \<subseteq> insert (x, y, z) (fst ` set (voxels s))"
      by (simp add: invalidate_cache_def dom_update)
    show "\<forall>p\<in>insert (x, y, z) (fst ` set (voxels s)). position_ok s p"
      using assms ok by (simp add: engine_inv_def keys_in_bounds_iff)
    show "distinct (map fst (voxels ?s'))"
      using assms by (simp add: engine_inv_def invalidate_cache_def distinct_update)
    show "set (undo_stack ?s') \<subseteq>
          insert (''place'', (x, y, z), map_of (voxels s) (x, y, z)) (set (undo_stack s))"
      using push_undo_stack_subset [of "''place''" "(x, y, z)" "map_of (voxels s) (x, y, z)" s]
      by (simp add: invalidate_cache_def)
    show "\<forall>e\<in>insert (''place'', (x, y, z), map_of (voxels s) (x, y, z)) (set (undo_stack s)).
            position_ok s (fst (snd e))"
      using assms ok by (simp add: engine_inv_def undo_in_bounds_iff)
    show "cache_coherent ?s'" by (simp add: cache_coherent_def invalidate_cache_def)
    show "current_color_index ?s' = current_color_index s" by (simp add: invalidate_cache_def)
    show "palette_ok s" by (rule pal)
  qed
  moreover have "grid_size ?s' = grid_size s" by (simp add: invalidate_cache_def)
  ultimately show ?thesis using eq by blast
qed

lemma remove_voxel_inv:
  assumes "engine_inv s"
  shows "engine_inv (snd (remove_voxel x y z s)) \<and> grid_size (snd (remove_voxel x y z s)) = grid_size s"
proof (cases "map_of (voxels s) (x, y, z)")
  case None
  with assms show ?thesis by (simp add: remove_voxel_def)
next
  case (Some v)
  then have "(x, y, z) \<in> fst ` set (voxels s)"
    by (metis map_of_eq_None_iff option.distinct(1))
  with assms have ok: "position_ok s (x, y, z)"
    by (auto simp: engine_inv_def keys_in_bounds_iff)
  let ?s1 = "push_undo ''remove'' (x, y, z) (Some v) s"
  let ?s' = "invalidate_cache (?s1\<lparr>voxels := AList.delete (x, y, z) (voxels ?s1)\<rparr>)"
  have eq: "remove_voxel x y z s = (True, ?s')"
    using Some by (simp add: remove_voxel_def Let_def)
  have "engine_inv ?s'"
  proof (rule engine_invI [where s = s])
    show "grid_size ?s' = grid_size s" by (simp add: invalidate_cache_def)
    show "fst ` set (voxels ?s') \<subseteq> fst ` set (voxels s)"
      using delete_subset [of "(x, y, z)" "voxels s"] by (auto simp: invalidate_cache_def)
    show "\<forall>p\<in>fst ` set (voxels s). position_ok s p"
      using assms by (simp add: engine_inv_def keys_in_bounds_iff)
    show "distinct (map fst (voxels ?s'))"
      using assms by (simp add: engine_inv_def invalidate_cache_def distinct_delete)
    show "set (undo_stack ?s') \<subseteq> insert (''remove'', (x, y, z), Some v) (set (undo_stack s))"
      using push_undo_stack_subset [of "''remove''" "(x, y, z)" "Some v" s]
      by (simp add: invalidate_cache_def)
    show "\<forall>e\<in>insert (''remove'', (x, y, z), Some v) (set (undo_stack s)).
            position_ok s (fst (snd e))"
      using assms ok by (simp add: engine_inv_def undo_in_bounds_iff)
    show "cache_coherent ?s'" by (simp add: cache_coherent_def invalidate_cache_def)
    show "current_color_index ?s' = current_color_index s" by (simp add: invalidate_cache_def)
    show "palette_ok s" using assms by (simp add: engine_inv_def)
  qed
  moreover have "grid_size ?s' = grid_size s" by (simp add: invalidate_cache_def)
  ultimately show ?thesis using eq by simp
qed

lemma undo_fields:
  assumes "undo_stack s \<noteq> []"
  shows "undo_stack (snd (undo s)) = butlast (undo_stack s)"
    and "grid_size (snd (undo s)) = grid_size s"
    and "max_undo (snd (undo s)) = max_undo s"
    and "current_color_index (snd (undo s)) = current_color_index s"
    and "visible_faces_cache (snd (undo s)) = None"
  using assms
  by (simp_all add: undo_def Let_def invalidate_cache_def split: prod.splits option.splits)

lemma undo_voxels:
  assumes "undo_stack s \<noteq> []" and "last (undo_stack s) = (a, pos, v)"
  shows "voxels (snd (undo s)) = voxels s \<or>
         voxels (snd (undo s)) = AList.delete pos (voxels s) \<or>
         (\<exists>w. voxels (snd (undo s)) = AList.update pos w (voxels s))"
  using assms
  by (auto simp: undo_def Let_def invalidate_cache_def split: option.splits)

lemma undo_inv:
  assumes "engine_inv s"
  shows "engine_inv (snd (undo s)) \<and> grid_size (snd (undo s)) = grid_size s"
proof (cases "undo_stack s = []")
  case True
  with assms show ?thesis by (simp add: undo_def)
next
  case False
  note f = undo_fields [OF False]
  obtain a pos v where l: "last (undo_stack s) = (a, pos, v)"
    by (metis prod_cases3)
  have "last (undo_stack s) \<in> set (undo_stack s)" using False by simp
  with assms l have ok: "position_ok s pos"
    by (auto simp: engine_inv_def undo_in_bounds_iff)
  note vs = undo_voxels [OF False l]
  have "engine_inv (snd (undo s))"
  proof (rule engine_invI [where s = s])
    show "grid_size (snd (undo s)) = grid_size s" by (rule f)
    have "fst ` set (AList.delete pos (voxels s)) \<subseteq> fst ` set (voxels s)"
      by (rule image_mono) (rule delete_subset)
    then show "fst ` set (voxels (snd (undo s))) \<subseteq> insert pos (fst ` set (voxels s))"
      using vs by (elim disjE exE) (simp_all add: dom_update subset_insertI2)
    show "\<forall>p\<in>insert pos (fst ` set (voxels s)). position_ok s p"
      using assms ok by (simp add: engine_inv_def keys_in_bounds_iff)
    show "distinct (map fst (voxels (snd (undo s))))"
      using assms vs by (auto simp: engine_inv_def distinct_delete distinct_update)
    show "set (undo_stack (snd (undo s))) \<subseteq> set (undo_stack s)"
      unfolding f by (auto dest: in_set_butlastD)
    show "\<forall>e\<in>set (undo_stack s). position_ok s (fst (snd e))"
      using assms by (simp add: engine_inv_def undo_in_bounds_iff)
    show "cache_coherent (snd (undo s))" by (simp add: cache_coherent_def f)
    show "current_color_index (snd (undo s)) = current_color_index s" by (rule f)
    show "palette_ok s" using assms by (simp add: engine_inv_def)
  qed
  then show ?thesis using f by simp
qed

lemma clear_inv:
  "engine_inv s \<Longrightarrow> engine_inv (clear s) \<and> grid_size (clear s) = grid_size s"
  by (simp add: clear_def engine_inv_def keys_in_bounds_def undo_in_bounds_def
      cache_coherent_def palette_ok_def invalidate_cache_def)

lemma cache_coherent_cong:
  "voxels s' = voxels s \<Longrightarrow> visible_faces_cache s' = visible_faces_cache s \<Longrightarrow>
   cache_coherent s' = cache_coherent s"
  using compute_faces_cong [of s' s] by (simp add: cache_coherent_def split: option.splits)

lemma color_step_inv:
  assumes "engine_inv s"
  shows "engine_inv (next_color s) \<and> grid_size (next_color s) = grid_size s"
    and "engine_inv (prev_color s) \<and> grid_size (prev_color s) = grid_size s"
proof -
  have n: "cache_coherent (next_color s) = cache_coherent s"
    by (rule cache_coherent_cong) (simp_all add: next_color_def)
  have p: "cache_coherent (prev_color s) = cache_coherent s"
    by (rule cache_coherent_cong) (simp_all add: prev_color_def)
  have gn: "grid_size (next_color s) = grid_size s" by (simp add: next_color_def)
  have gp: "grid_size (prev_color s) = grid_size s" by (simp add: prev_color_def)
  show "engine_inv (next_color s) \<and> grid_size (next_color s) = grid_size s"
    using assms n gn position_ok_cong [OF gn]
    by (simp add: engine_inv_def keys_in_bounds_def undo_in_bounds_def)
       (simp add: next_color_def palette_ok_def COLORS_def)
  show "engine_inv (prev_color s) \<and> grid_size (prev_color s) = grid_size s"
    using assms p gp position_ok_cong [OF gp]
    by (simp add: engine_inv_def keys_in_bounds_def undo_in_bounds_def)
       (simp add: prev_color_def palette_ok_def COLORS_def)
qed

lemma get_visible_faces_inv:
  assumes "engine_inv s"
  shows "engine_inv (snd (get_visible_faces s)) \<and>
         grid_size (snd (get_visible_faces s)) = grid_size s"
proof (cases "visible_faces_cache s")
  case (Some f)
  with assms show ?thesis by (simp add: get_visible_faces_def)
next
  case None
  let ?s' = "s\<lparr>visible_faces_cache := Some (compute_faces s)\<rparr>"
  have c: "compute_faces ?s' = compute_faces s"
    by (rule compute_faces_cong) simp
  have g: "grid_size ?s' = grid_size s" by simp
  have "engine_inv ?s'"
    using assms c position_ok_cong [OF g]
    by (simp add: engine_inv_def keys_in_bounds_def undo_in_bounds_def cache_coherent_def
        palette_ok_def)
  then show ?thesis using None by (simp add: get_visible_faces_def Let_def)
qed

lemma apply_op_inv:
  assumes "engine_inv s"
  shows "\<exists>s'. apply_op o1 s = Inr s' \<and> engine_inv s' \<and> grid_size s' = grid_size s"
proof (cases o1)
  case (Place x y z c)
  obtain b s' where "place_voxel x y z c s = Inr (b, s')" "engine_inv s'" "grid_size s' = grid_size s"
    using place_voxel_inv [OF assms] by blast
  with Place show ?thesis by simp
qed (use assms remove_voxel_inv undo_inv clear_inv color_step_inv get_visible_faces_inv in simp_all)

lemma run_inv:
  "engine_inv s \<Longrightarrow> \<exists>s'. run os s = Inr s' \<and> engine_inv s' \<and> grid_size s' = grid_size s"
proof (induction os arbitrary: s)
  case Nil
  then show ?case by simp
next
  case (Cons o1 os)
  obtain s1 where s1: "apply_op o1 s = Inr s1" "engine_inv s1" "grid_size s1 = grid_size s"
    using apply_op_inv [OF Cons.prems] by blast
  from Cons.IH [OF s1(2)] s1 show ?case by auto
qed

lemmas engine_eval =
  place_voxel_def remove_voxel_def undo_def clear_def is_valid_position_def current_color_def
  py_getitem_def COLORS_def push_undo_def invalidate_cache_def Let_def get_visible_faces_def
  compute_faces_def faces_of_voxel_def has_voxel_def directions_def VoxelEngine_init_def
  next_color_def prev_color_def

section \<open>Failure returns of the mutating operations\<close>

text \<open>
  Claim C2. \<open>place_voxel\<close> returns False exactly when some coordinate is outside
  \<open>[0, grid_size)\<close>, \<open>remove_voxel\<close> returns False exactly when the cell is empty, and
  \<open>undo\<close> returns False exactly when the undo stack is empty; in each of these cases the
  whole engine state (voxel dictionary, undo stack, face cache) is returned unchanged.
\<close>

theorem mutation_failure_no_change:
  "((\<exists>s'. place_voxel x y z c s = Inr (False, s')) \<longleftrightarrow>
      \<not> (0 \<le> x \<and> x < grid_size s \<and> 0 \<le> y \<and> y < grid_size s \<and> 0 \<le> z \<and> z < grid_size s))
   \<and> (\<not> (0 \<le> x \<and> x < grid_size s \<and> 0 \<le> y \<and> y < grid_size s \<and> 0 \<le> z \<and> z < grid_size s)
        \<longrightarrow> place_voxel x y z c s = Inr (False, s))
   \<and> (fst (remove_voxel x y z s) = False \<longleftrightarrow> map_of (voxels s) (x, y, z) = None)
   \<and> (map_of (voxels s) (x, y, z) = None \<longrightarrow> snd (remove_voxel x y z s) = s)
   \<and> (fst (undo s) = False \<longleftrightarrow> undo_stack s = [])
   \<and> (undo_stack s = [] \<longrightarrow> snd (undo s) = s)"
  by (auto simp: place_voxel_def remove_voxel_def undo_def is_valid_position_def Let_def
      split: sum.splits option.splits prod.splits)

theorem mutation_failure_no_change_witness:
  "place_voxel 16 0 0 None (VoxelEngine_init 16) = Inr (False, VoxelEngine_init 16)
   \<and> remove_voxel 16 0 0 (VoxelEngine_init 16) = (False, VoxelEngine_init 16)
   \<and> undo (VoxelEngine_init 16) = (False, VoxelEngine_init 16)"
  using mutation_failure_no_change [of 16 0 0 None "VoxelEngine_init 16"]
  by (simp add: VoxelEngine_init_def prod_eq_iff)

section \<open>Store invariant\<close>

text \<open>
  Claim C6. After any sequence of operations on a freshly constructed engine of grid size
  \<open>g\<close>, no operation has raised, every key of the voxel dictionary has all three coordinates
  in \<open>[0, g)\<close>, and no coordinate occurs twice among the keys.
\<close>

theorem store_invariant_reachable:
  "\<exists>s. run os (VoxelEngine_init g) = Inr s \<and>
       list_all (\<lambda>(x, y, z). 0 \<le> x \<and> x < g \<and> 0 \<le> y \<and> y < g \<and> 0 \<le> z \<and> z < g)
         (map fst (voxels s)) \<and>
       distinct (map fst (voxels s))"
proof -
  obtain s where s: "run os (VoxelEngine_init g) = Inr s" "engine_inv s"
    "grid_size s = grid_size (VoxelEngine_init g)"
    using run_inv [OF engine_inv_init] by blast
  then have g: "grid_size s = g" by (simp add: VoxelEngine_init_def)
  from s(2) have "list_all (position_ok s) (map fst (voxels s))"
    by (simp add: engine_inv_def keys_in_bounds_def)
  then have "list_all (\<lambda>(x, y, z). 0 \<le> x \<and> x < g \<and> 0 \<le> y \<and> y < g \<and> 0 \<le> z \<and> z < g)
         (map fst (voxels s))"
    by (auto simp: list_all_iff position_ok_def is_valid_position_def g)
  moreover from s(2) have "distinct (map fst (voxels s))" by (simp add: engine_inv_def)
  ultimately show ?thesis using s(1) by blast
qed

theorem store_invariant_reachable_witness:
  "\<exists>s. run [Place 1 2 3 None, Place 16 0 0 None, Place 0 0 0 (Some (9, 9, 9)),
            Remove 1 2 3, Undo, Place 1 2 3 None] (VoxelEngine_init 16) = Inr s \<and>
       map fst (voxels s) = [(0, 0, 0), (1, 2, 3)] \<and>
       list_all (\<lambda>(x, y, z). 0 \<le> x \<and> x < 16 \<and> 0 \<le> y \<and> y < 16 \<and> 0 \<le> z \<and> z < 16)
         (map fst (voxels s)) \<and>
       distinct (map fst (voxels s))"
  using store_invariant_reachable
    [of "[Place 1 2 3 None, Place 16 0 0 None, Place 0 0 0 (Some (9, 9, 9)),
            Remove 1 2 3, Undo, Place 1 2 3 None]" 16]
  by (simp add: engine_eval)

section \<open>Coherence of the visible-face cache\<close>

text \<open>
  Claim C1. After any sequence of operations on a freshly constructed engine (reads of
  \<open>get_visible_faces\<close> included), \<open>get_visible_faces\<close> returns exactly what the recomputation
  loop yields on the current voxels, which is also what it returns once the cache has been
  dropped; and every successful \<open>place_voxel\<close>, \<open>remove_voxel\<close> and \<open>undo\<close>, and every
  \<open>clear\<close>, leaves the cache empty.
\<close>

theorem visible_faces_never_stale:
  "(\<exists>s. run os (VoxelEngine_init g) = Inr s \<and>
        fst (get_visible_faces s) = compute_faces s \<and>
        fst (get_visible_faces s) = fst (get_visible_faces (invalidate_cache s)))
   \<and> (place_voxel x y z c s0 = Inr (True, s1) \<longrightarrow> visible_faces_cache s1 = None)
   \<and> (fst (remove_voxel x y z s0) \<longrightarrow> visible_faces_cache (snd (remove_voxel x y z s0)) = None)
   \<and> (fst (undo s0) \<longrightarrow> visible_faces_cache (snd (undo s0)) = None)
   \<and> visible_faces_cache (clear s0) = None"
proof -
  obtain s where s: "run os (VoxelEngine_init g) = Inr s" "engine_inv s"
    using run_inv [OF engine_inv_init] by blast
  from s(2) have "cache_coherent s" by (simp add: engine_inv_def)
  then have a: "fst (get_visible_faces s) = compute_faces s"
    by (simp add: cache_coherent_def get_visible_faces_def Let_def split: option.splits)
  have "compute_faces (invalidate_cache s) = compute_faces s"
    by (rule compute_faces_cong) (simp add: invalidate_cache_def)
  then have b: "fst (get_visible_faces (invalidate_cache s)) = compute_faces s"
    by (simp add: get_visible_faces_def invalidate_cache_def Let_def)
  have p: "place_voxel x y z c s0 = Inr (True, s1) \<longrightarrow> visible_faces_cache s1 = None"
    by (auto simp: place_voxel_def Let_def invalidate_cache_def split: if_splits sum.splits)
  have r: "fst (remove_voxel x y z s0) \<longrightarrow> visible_faces_cache (snd (remove_voxel x y z s0)) = None"
    by (simp add: remove_voxel_def Let_def invalidate_cache_def split: option.splits)
  have u: "fst (undo s0) \<longrightarrow> visible_faces_cache (snd (undo s0)) = None"
  proof (cases "undo_stack s0 = []")
    case True
    then show ?thesis by (simp add: undo_def)
  next
    case False
    then show ?thesis by (simp add: undo_fields)
  qed
  have c: "visible_faces_cache (clear s0) = None"
    by (simp add: clear_def invalidate_cache_def)
  from s(1) a b p r u c show ?thesis by auto
qed

theorem visible_faces_never_stale_witness:
  "(\<exists>s. run [Place 1 1 1 None, GetVisibleFaces, Place 2 1 1 None, GetVisibleFaces, Undo]
           (VoxelEngine_init 16) = Inr s \<and>
        length (fst (get_visible_faces s)) = 6 \<and>
        fst (get_visible_faces s) = compute_faces s)
   \<and> visible_faces_cache (snd (remove_voxel 1 1 1
         \<lparr>grid_size = 16, voxels = [((1, 1, 1), \<lparr>color = (255, 100, 50)\<rparr>)],
          current_color_index = 0, undo_stack = [(''place'', (1, 1, 1), None)], max_undo = 50,
          visible_faces_cache = Some []\<rparr>)) = None
   \<and> visible_faces_cache (snd (undo
         \<lparr>grid_size = 16, voxels = [((1, 1, 1), \<lparr>color = (255, 100, 50)\<rparr>)],
          current_color_index = 0, undo_stack = [(''place'', (1, 1, 1), None)], max_undo = 50,
          visible_faces_cache = Some []\<rparr>)) = None"
  using visible_faces_never_stale
    [of "[Place 1 1 1 None, GetVisibleFaces, Place 2 1 1 None, GetVisibleFaces, Undo]" 16
        1 1 1 None
        "\<lparr>grid_size = 16, voxels = [((1, 1, 1), \<lparr>color = (255, 100, 50)\<rparr>)],
          current_color_index = 0, undo_stack = [(''place'', (1, 1, 1), None)], max_undo = 50,
          visible_faces_cache = Some []\<rparr>"]
  by (simp add: engine_eval)

section \<open>Undo reverses edits\<close>

lemma undo_same_content:
  assumes "same_content s t"
  shows "same_content (snd (undo s)) (snd (undo t))"
proof (cases "undo_stack s = []")
  case True
  with assms show ?thesis by (simp add: undo_def same_content_def)
next
  case False
  with assms have ft: "undo_stack t \<noteq> []" by (simp add: same_content_def)
  obtain a pos v where l: "last (undo_stack s) = (a, pos, v)" by (metis prod_cases3)
  with assms have lt: "last (undo_stack t) = (a, pos, v)" by (simp add: same_content_def)
  have m: "map_of (voxels (snd (undo s))) = map_of (voxels (snd (undo t)))"
    using assms False ft l lt
    by (auto simp: undo_def Let_def invalidate_cache_def same_content_def update_conv'
        delete_conv' split: option.splits)
  show ?thesis
    using assms m undo_fields [OF False] undo_fields [OF ft]
    by (simp add: same_content_def)
qed

lemma undo_times_same_content:
  "same_content s t \<Longrightarrow> same_content (undo_times n s) (undo_times n t)"
  by (induction n arbitrary: s t) (simp_all add: undo_same_content)

lemma undo_times_add: "undo_times (m + n) s = undo_times n (undo_times m s)"
  by (induction m arbitrary: s) simp_all

lemma undo_times_empty: "undo_stack s = [] \<Longrightarrow> undo_times n s = s"
  by (induction n) (simp_all add: undo_def)

lemma same_content_refl: "same_content s s"
  by (simp add: same_content_def)

lemma same_content_trans:
  "same_content s t \<Longrightarrow> same_content t u \<Longrightarrow> same_content s u"
  by (simp add: same_content_def)

lemma place_then_undo:
  assumes "place_voxel x y z c s = Inr (True, s1)"
    and "int (length (undo_stack s)) < max_undo s"
  shows "undo_stack s1 = undo_stack s @ [(''place'', (x, y, z), map_of (voxels s) (x, y, z))]"
    and "same_content (snd (undo s1)) s"
    and "visible_faces_cache s1 = None"
proof -
  from assms(1) obtain col where
    s1: "s1 = invalidate_cache
          ((push_undo ''place'' (x, y, z) (map_of (voxels s) (x, y, z)) s)
             \<lparr>voxels := AList.update (x, y, z) \<lparr>color = col\<rparr> (voxels s)\<rparr>)"
    by (auto simp: place_voxel_def Let_def split: if_splits sum.splits)
  show st: "undo_stack s1 = undo_stack s @ [(''place'', (x, y, z), map_of (voxels s) (x, y, z))]"
    using assms(2) by (simp add: s1 invalidate_cache_def push_undo_def Let_def)
  show "visible_faces_cache s1 = None" by (simp add: s1 invalidate_cache_def)
  have v1: "voxels s1 = AList.update (x, y, z) \<lparr>color = col\<rparr> (voxels s)"
    by (simp add: s1 invalidate_cache_def)
  have f1: "grid_size s1 = grid_size s" "max_undo s1 = max_undo s"
    "current_color_index s1 = current_color_index s"
    by (simp_all add: s1 invalidate_cache_def)
  have ne: "undo_stack s1 \<noteq> []" by (simp add: st)
  have m: "map_of (voxels (snd (undo s1))) = map_of (voxels s)"
    by (cases "map_of (voxels s) (x, y, z)")
       (auto simp: undo_def st v1 Let_def invalidate_cache_def update_conv' delete_conv')
  show "same_content (snd (undo s1)) s"
    using m undo_fields [OF ne] f1 by (simp add: same_content_def st)
qed

lemma remove_then_undo:
  assumes "fst (remove_voxel x y z s)"
    and "int (length (undo_stack s)) < max_undo s"
  shows "\<exists>e. undo_stack (snd (remove_voxel x y z s)) = undo_stack s @ [e]"
    and "same_content (snd (undo (snd (remove_voxel x y z s)))) s"
    and "visible_faces_cache (snd (remove_voxel x y z s)) = None"
proof -
  let ?s1 = "snd (remove_voxel x y z s)"
  from assms(1) obtain v where v: "map_of (voxels s) (x, y, z) = Some v"
    by (cases "map_of (voxels s) (x, y, z)") (simp_all add: remove_voxel_def)
  have s1: "?s1 = invalidate_cache
          ((push_undo ''remove'' (x, y, z) (Some v) s)
             \<lparr>voxels := AList.delete (x, y, z) (voxels s)\<rparr>)"
    using v by (simp add: remove_voxel_def Let_def)
  have st: "undo_stack ?s1 = undo_stack s @ [(''remove'', (x, y, z), Some v)]"
    using assms(2) by (simp add: s1 invalidate_cache_def push_undo_def Let_def)
  then show "\<exists>e. undo_stack ?s1 = undo_stack s @ [e]" by blast
  show "visible_faces_cache ?s1 = None" by (simp add: s1 invalidate_cache_def)
  have v1: "voxels ?s1 = AList.delete (x, y, z) (voxels s)"
    by (simp add: s1 invalidate_cache_def)
  have f1: "grid_size ?s1 = grid_size s" "max_undo ?s1 = max_undo s"
    "current_color_index ?s1 = current_color_index s"
    by (simp_all add: s1 invalidate_cache_def)
  have ne: "undo_stack ?s1 \<noteq> []" by (simp add: st)
  have m: "map_of (voxels (snd (undo ?s1))) = map_of (voxels s)"
    using v
    by (auto simp: undo_def st v1 Let_def invalidate_cache_def update_conv' delete_conv')
  show "same_content (snd (undo ?s1)) s"
    using m undo_fields [OF ne] f1 by (simp add: same_content_def st)
qed

lemma edit_cache_none:
  assumes "is_edit o1" and "apply_op o1 s = Inr s1" and "visible_faces_cache s = None"
  shows "visible_faces_cache s1 = None"
proof (cases o1)
  case (Place x y z c)
  with assms show ?thesis
    by (auto simp: place_voxel_def Let_def invalidate_cache_def split: if_splits sum.splits)
next
  case (Remove x y z)
  with assms show ?thesis
    by (auto simp: remove_voxel_def Let_def invalidate_cache_def split: option.splits)
qed (use assms in simp_all)

lemma undo_cache_none:
  assumes "visible_faces_cache s = None"
  shows "visible_faces_cache (snd (undo s)) = None"
proof (cases "undo_stack s = []")
  case True
  with assms show ?thesis by (simp add: undo_def)
next
  case False
  then show ?thesis by (simp add: undo_fields)
qed

lemma undo_times_cache_none:
  "visible_faces_cache s = None \<Longrightarrow> visible_faces_cache (undo_times n s) = None"
  by (induction n arbitrary: s) (simp_all add: undo_cache_none)

lemma edits_then_undo:
  assumes "list_all is_edit os" and "palette_ok s"
    and "int (length (undo_stack s) + length os) \<le> max_undo s"
    and "visible_faces_cache s = None"
  shows "\<exists>s' new. run os s = Inr s' \<and> undo_stack s' = undo_stack s @ new \<and>
           length new \<le> length os \<and> same_content (undo_times (length new) s') s \<and>
           visible_faces_cache s' = None"
  using assms
proof (induction os arbitrary: s)
  case Nil
  then show ?case by (simp add: same_content_refl)
next
  case (Cons o1 os)
  from Cons.prems have ed: "is_edit o1" and eds: "list_all is_edit os" by simp_all
  from Cons.prems have room: "int (length (undo_stack s)) < max_undo s" by simp
  text \<open>one step\<close>
  have step: "\<exists>s1. apply_op o1 s = Inr s1 \<and> palette_ok s1 \<and> max_undo s1 = max_undo s \<and>
      visible_faces_cache s1 = None \<and>
      (s1 = s \<or> (\<exists>e. undo_stack s1 = undo_stack s @ [e]) \<and> same_content (snd (undo s1)) s)"
  proof (cases o1)
    case (Place x y z c)
    show ?thesis
    proof (cases "is_valid_position s x y z")
      case False
      with Place Cons.prems show ?thesis by (simp add: place_voxel_def)
    next
      case True
      obtain col where "(case c of Some c' \<Rightarrow> Inr c' | None \<Rightarrow> current_color s) = Inr col"
        using current_color_ok [OF Cons.prems(2)] by (cases c) simp_all
      with True obtain s1 where p: "place_voxel x y z c s = Inr (True, s1)"
        by (simp add: place_voxel_def Let_def)
      note r = place_then_undo [OF p room]
      have "palette_ok s1 \<and> max_undo s1 = max_undo s"
        using r(2) Cons.prems(2) undo_fields [of s1] r(1)
        by (simp add: same_content_def palette_ok_def)
      with Place p r show ?thesis by auto
    qed
  next
    case (Remove x y z)
    show ?thesis
    proof (cases "fst (remove_voxel x y z s)")
      case False
      then have "snd (remove_voxel x y z s) = s"
        by (cases "map_of (voxels s) (x, y, z)") (simp_all add: remove_voxel_def Let_def)
      with Remove Cons.prems show ?thesis by simp
    next
      case True
      note r = remove_then_undo [OF True room]
      let ?s1 = "snd (remove_voxel x y z s)"
      from r(1) have ne: "undo_stack ?s1 \<noteq> []" by auto
      have "palette_ok ?s1 \<and> max_undo ?s1 = max_undo s"
        using r(2) Cons.prems(2) undo_fields [OF ne]
        by (simp add: same_content_def palette_ok_def)
      with Remove r show ?thesis by auto
    qed
  qed (use ed in simp_all)
  then obtain s1 where a: "apply_op o1 s = Inr s1" and pal: "palette_ok s1"
    and mu: "max_undo s1 = max_undo s" and c1: "visible_faces_cache s1 = None"
    and alt: "s1 = s \<or> (\<exists>e. undo_stack s1 = undo_stack s @ [e]) \<and> same_content (snd (undo s1)) s"
    by blast
  from alt Cons.prems(3) mu
  have room1: "int (length (undo_stack s1) + length os) \<le> max_undo s1" by auto
  from Cons.IH [OF eds pal room1 c1] obtain s' new where
    r: "run os s1 = Inr s'" and st: "undo_stack s' = undo_stack s1 @ new"
    and ln: "length new \<le> length os"
    and sc: "same_content (undo_times (length new) s') s1"
    and c': "visible_faces_cache s' = None"
    by blast
  have run: "run (o1 # os) s = Inr s'" using a r by simp
  from alt show ?case
  proof
    assume "s1 = s"
    with run st ln sc c' show ?thesis by (intro exI [of _ s'] exI [of _ new]) simp
  next
    assume h: "(\<exists>e. undo_stack s1 = undo_stack s @ [e]) \<and> same_content (snd (undo s1)) s"
    then obtain e where e: "undo_stack s1 = undo_stack s @ [e]" by blast
    have "undo_times (length (e # new)) s' = undo_times 1 (undo_times (length new) s')"
      using undo_times_add [of "length new" 1 s'] by simp
    also have "\<dots> = snd (undo (undo_times (length new) s'))" by simp
    finally have eq: "undo_times (length (e # new)) s' = snd (undo (undo_times (length new) s'))" .
    have "same_content (snd (undo (undo_times (length new) s'))) (snd (undo s1))"
      by (rule undo_same_content [OF sc])
    with h have "same_content (undo_times (length (e # new)) s') s"
      unfolding eq by (blast intro: same_content_trans)
    with run st ln c' e show ?thesis
      by (intro exI [of _ s'] exI [of _ "e # new"]) simp
  qed
qed

text \<open>
  Claim C4. Starting from a freshly constructed (empty) engine, after any sequence of \<open>N\<close>
  place/remove operations with \<open>N \<le> 50\<close> (the undo capacity set by the constructor), no
  operation has raised and \<open>N\<close> calls of \<open>undo\<close> give back the initial engine state.
\<close>

theorem undo_all_restores_empty:
  assumes "list_all is_edit os" and "length os \<le> 50"
  shows "\<exists>s. run os (VoxelEngine_init g) = Inr s \<and>
             undo_times (length os) s = VoxelEngine_init g"
proof -
  let ?i = "VoxelEngine_init g"
  have "palette_ok ?i" by (simp add: palette_ok_def VoxelEngine_init_def COLORS_def)
  moreover have "int (length (undo_stack ?i) + length os) \<le> max_undo ?i"
    using assms(2) by (simp add: VoxelEngine_init_def)
  moreover have "visible_faces_cache ?i = None" by (simp add: VoxelEngine_init_def)
  ultimately obtain s new where r: "run os ?i = Inr s"
    and st: "undo_stack s = undo_stack ?i @ new" and ln: "length new \<le> length os"
    and sc: "same_content (undo_times (length new) s) ?i"
    and c: "visible_faces_cache s = None"
    using edits_then_undo [OF assms(1), of ?i] by blast
  let ?t = "undo_times (length new) s"
  from sc have "map_of (voxels ?t) = Map.empty"
    by (simp add: same_content_def VoxelEngine_init_def)
  then have v: "voxels ?t = []" by (simp add: map_of_eq_empty_iff)
  have "visible_faces_cache ?t = None" by (rule undo_times_cache_none [OF c])
  with sc v have t: "?t = ?i"
    by (simp add: same_content_def VoxelEngine_init_def)
  have "undo_times (length os) s = undo_times (length os - length new) ?t"
    using undo_times_add [of "length new" "length os - length new" s] ln by simp
  also have "\<dots> = ?i"
    unfolding t by (rule undo_times_empty) (simp add: VoxelEngine_init_def)
  finally show ?thesis using r by blast
qed

theorem undo_all_restores_empty_witness:
  "\<exists>s. run [Place 1 1 1 None, Place 1 1 1 (Some (0, 0, 0)), Remove 1 1 1,
            Place 2 2 2 None, Remove 9 9 9] (VoxelEngine_init 16) = Inr s \<and>
       map fst (voxels s) = [(2, 2, 2)] \<and> length (undo_stack s) = 4 \<and>
       undo_times 5 s = VoxelEngine_init 16"
  using undo_all_restores_empty
    [of "[Place 1 1 1 None, Place 1 1 1 (Some (0, 0, 0)), Remove 1 1 1,
            Place 2 2 2 None, Remove 9 9 9]" 16]
  by (simp add: engine_eval eval_nat_numeral)

section \<open>Place followed by remove\<close>

text \<open>
  Claim C3 as stated fails when the cell is already occupied: \<open>place_voxel\<close> overwrites the
  voxel and \<open>remove_voxel\<close> then deletes the cell. On a 16-grid holding one voxel at
  \<open>(0, 0, 0)\<close>, placing at \<open>(0, 0, 0)\<close> succeeds, and the remove leaves an empty dictionary and
  no visible face, where there were one voxel and six faces before.
\<close>

theorem place_remove_roundtrip_counterexample:
  "run [Place 0 0 0 None] (VoxelEngine_init 16) =
     Inr \<lparr>grid_size = 16, voxels = [((0, 0, 0), \<lparr>color = (255, 100, 50)\<rparr>)],
          current_color_index = 0, undo_stack = [(''place'', (0, 0, 0), None)],
          max_undo = 50, visible_faces_cache = None\<rparr>
   \<and> is_valid_position
        \<lparr>grid_size = 16, voxels = [((0, 0, 0), \<lparr>color = (255, 100, 50)\<rparr>)],
          current_color_index = 0, undo_stack = [(''place'', (0, 0, 0), None)],
          max_undo = 50, visible_faces_cache = None\<rparr> 0 0 0
   \<and> voxels (snd (remove_voxel 0 0 0 (snd (projr (place_voxel 0 0 0 None
        \<lparr>grid_size = 16, voxels = [((0, 0, 0), \<lparr>color = (255, 100, 50)\<rparr>)],
          current_color_index = 0, undo_stack = [(''place'', (0, 0, 0), None)],
          max_undo = 50, visible_faces_cache = None\<rparr>))))) = []
   \<and> length (fst (get_visible_faces
        \<lparr>grid_size = 16, voxels = [((0, 0, 0), \<lparr>color = (255, 100, 50)\<rparr>)],
          current_color_index = 0, undo_stack = [(''place'', (0, 0, 0), None)],
          max_undo = 50, visible_faces_cache = None\<rparr>)) = 6
   \<and> fst (get_visible_faces (snd (remove_voxel 0 0 0 (snd (projr (place_voxel 0 0 0 None
        \<lparr>grid_size = 16, voxels = [((0, 0, 0), \<lparr>color = (255, 100, 50)\<rparr>)],
          current_color_index = 0, undo_stack = [(''place'', (0, 0, 0), None)],
          max_undo = 50, visible_faces_cache = None\<rparr>)))))) = []"
  by (simp add: engine_eval)

text \<open>
  Claim C3, amended. In every state reached from a fresh engine of grid size \<open>g\<close>, for every
  in-bounds coordinate whose cell is empty, \<open>place_voxel\<close> succeeds, the following
  \<open>remove_voxel\<close> at the same coordinate succeeds, the voxel dictionary is then the one
  before the place (same entries in the same order), and \<open>get_visible_faces\<close> returns what it
  returned before the place.
\<close>

theorem place_remove_roundtrip:
  assumes "run os (VoxelEngine_init g) = Inr s"
    and "0 \<le> x \<and> x < g \<and> 0 \<le> y \<and> y < g \<and> 0 \<le> z \<and> z < g"
    and "map_of (voxels s) (x, y, z) = None"
  shows "\<exists>s1 s2. place_voxel x y z c s = Inr (True, s1) \<and>
           remove_voxel x y z s1 = (True, s2) \<and>
           voxels s2 = voxels s \<and>
           fst (get_visible_faces s2) = fst (get_visible_faces s)"
proof -
  obtain s' where "run os (VoxelEngine_init g) = Inr s'" "engine_inv s'"
    "grid_size s' = grid_size (VoxelEngine_init g)"
    using run_inv [OF engine_inv_init] by blast
  with assms(1) have inv: "engine_inv s" and g: "grid_size s = g"
    by (simp_all add: VoxelEngine_init_def)
  from assms(2) g have valid: "is_valid_position s x y z"
    by (simp add: is_valid_position_def)
  from inv have pal: "palette_ok s" and coh: "cache_coherent s"
    by (simp_all add: engine_inv_def)
  obtain col where col: "(case c of Some c' \<Rightarrow> Inr c' | None \<Rightarrow> current_color s) = Inr col"
    using current_color_ok [OF pal] by (cases c) simp_all
  let ?s1 = "invalidate_cache
          ((push_undo ''place'' (x, y, z) (map_of (voxels s) (x, y, z)) s)
             \<lparr>voxels := AList.update (x, y, z) \<lparr>color = col\<rparr> (voxels s)\<rparr>)"
  have p: "place_voxel x y z c s = Inr (True, ?s1)"
    using valid col by (simp add: place_voxel_def Let_def)
  have v1: "voxels ?s1 = AList.update (x, y, z) \<lparr>color = col\<rparr> (voxels s)"
    by (simp add: invalidate_cache_def)
  have m1: "map_of (voxels ?s1) (x, y, z) = Some \<lparr>color = col\<rparr>"
    unfolding v1 by (simp add: update_conv')
  let ?s2 = "snd (remove_voxel x y z ?s1)"
  have r: "remove_voxel x y z ?s1 = (True, ?s2)"
    using m1 by (simp add: remove_voxel_def Let_def)
  have notin: "(x, y, z) \<notin> fst ` set (voxels s)"
    using assms(3) by (simp add: map_of_eq_None_iff)
  have "voxels ?s2 = AList.delete (x, y, z) (voxels ?s1)"
    using m1 by (simp add: remove_voxel_def Let_def invalidate_cache_def)
  also have "\<dots> = voxels s"
    unfolding v1 using notin by (simp add: delete_update_same)
  finally have v2: "voxels ?s2 = voxels s" .
  have c2: "visible_faces_cache ?s2 = None"
    using m1 by (simp add: remove_voxel_def Let_def invalidate_cache_def)
  have "fst (get_visible_faces ?s2) = compute_faces ?s2"
    using c2 by (simp add: get_visible_faces_def Let_def)
  also have "\<dots> = compute_faces s" by (rule compute_faces_cong [OF v2])
  also have "\<dots> = fst (get_visible_faces s)"
    using coh by (simp add: cache_coherent_def get_visible_faces_def Let_def split: option.splits)
  finally show ?thesis using p r v2 by blast
qed

theorem place_remove_roundtrip_witness:
  "run [Place 3 3 3 None, GetVisibleFaces] (VoxelEngine_init 16) =
     Inr \<lparr>grid_size = 16, voxels = [((3, 3, 3), \<lparr>color = (255, 100, 50)\<rparr>)],
          current_color_index = 0, undo_stack = [(''place'', (3, 3, 3), None)],
          max_undo = 50,
          visible_faces_cache = Some (compute_faces
            \<lparr>grid_size = 16, voxels = [((3, 3, 3), \<lparr>color = (255, 100, 50)\<rparr>)],
             current_color_index = 0, undo_stack = [], max_undo = 50,
             visible_faces_cache = None\<rparr>)\<rparr>
   \<and> (\<exists>s1 s2. place_voxel 4 3 3 None
          \<lparr>grid_size = 16, voxels = [((3, 3, 3), \<lparr>color = (255, 100, 50)\<rparr>)],
          current_color_index = 0, undo_stack = [(''place'', (3, 3, 3), None)],
          max_undo = 50,
          visible_faces_cache = Some (compute_faces
            \<lparr>grid_size = 16, voxels = [((3, 3, 3), \<lparr>color = (255, 100, 50)\<rparr>)],
             current_color_index = 0, undo_stack = [], max_undo = 50,
             visible_faces_cache = None\<rparr>)\<rparr> = Inr (True, s1) \<and>
        remove_voxel 4 3 3 s1 = (True, s2) \<and>
        voxels s2 = [((3, 3, 3), \<lparr>color = (255, 100, 50)\<rparr>)] \<and>
        length (fst (get_visible_faces s2)) = 6)"
proof -
  let ?s = "\<lparr>grid_size = 16, voxels = [((3, 3, 3), \<lparr>color = (255, 100, 50)\<rparr>)],
          current_color_index = 0, undo_stack = [(''place'', (3, 3, 3), None)],
          max_undo = 50,
          visible_faces_cache = Some (compute_faces
            \<lparr>grid_size = 16, voxels = [((3, 3, 3), \<lparr>color = (255, 100, 50)\<rparr>)],
             current_color_index = 0, undo_stack = [], max_undo = 50,
             visible_faces_cache = None\<rparr>)\<rparr>"
  have r: "run [Place 3 3 3 None, GetVisibleFaces] (VoxelEngine_init 16) = Inr ?s"
    by (simp add: engine_eval)
  have b: "0 \<le> (4::int) \<and> (4::int) < 16 \<and> 0 \<le> (3::int) \<and> (3::int) < 16 \<and> 0 \<le> (3::int) \<and> (3::int) < 16"
    by simp
  have e: "map_of (voxels ?s) (4, 3, 3) = None" by simp
  have l: "length (fst (get_visible_faces ?s)) = 6" by (simp add: engine_eval)
  from place_remove_roundtrip [OF r b e, of None] l r show ?thesis by auto
qed

section \<open>Counting visible faces\<close>

lemma length_faces_of_voxel:
  "length (faces_of_voxel s (p, v)) = open_sides (fst ` set (voxels s)) p"
  by (cases p) (simp add: faces_of_voxel_def open_sides_def has_voxel_def map_of_eq_None_iff
      split_def)

lemma length_compute_faces:
  "length (compute_faces s) =
     sum_list (map (open_sides (fst ` set (voxels s))) (map fst (voxels s)))"
proof -
  have "length (compute_faces s) = sum_list (map (\<lambda>pv. length (faces_of_voxel s pv)) (voxels s))"
    by (simp add: compute_faces_def length_concat comp_def)
  also have "\<dots> = sum_list (map (\<lambda>pv. open_sides (fst ` set (voxels s)) (fst pv)) (voxels s))"
    by (rule arg_cong [where f = sum_list], rule map_cong [OF refl])
       (metis length_faces_of_voxel prod.collapse)
  finally show ?thesis by (simp add: comp_def)
qed

lemma length_compute_faces_distinct:
  assumes "distinct (map fst (voxels s))"
  shows "length (compute_faces s) =
         sum (open_sides (set (map fst (voxels s)))) (set (map fst (voxels s)))"
  using sum_list_distinct_conv_sum_set [OF assms, of "open_sides (set (map fst (voxels s)))"]
  by (simp add: length_compute_faces)

lemma open_sides_unfold:
  "open_sides K (x, y, z) =
     of_bool ((x + 1, y, z) \<notin> K) + of_bool ((x - 1, y, z) \<notin> K) +
     of_bool ((x, y + 1, z) \<notin> K) + of_bool ((x, y - 1, z) \<notin> K) +
     of_bool ((x, y, z + 1) \<notin> K) + of_bool ((x, y, z - 1) \<notin> K)"
  by (simp add: open_sides_def directions_def)

lemma set_cube_cells:
  "set (cube_cells x0 y0 z0 k) =
     {x0..<x0 + int k} \<times> {y0..<y0 + int k} \<times> {z0..<z0 + int k}"
proof -
  have "\<And>a (n::nat). {a..a + int n - 1} = {a..<a + int n}" by auto
  then show ?thesis by (auto simp: cube_cells_def)
qed

lemma sum_ends_interval:
  "sum (ends {a..<a + int k}) {a..<a + int k} = (if k = 0 then 0 else 2)"
proof (cases "k = 0")
  case True
  then show ?thesis by simp
next
  case False
  let ?I = "{a..<a + int k}"
  have hi: "sum (\<lambda>x. of_bool (x + 1 \<notin> ?I)) ?I = (1::nat)"
  proof -
    have "sum (\<lambda>x. of_bool (x + 1 \<notin> ?I)) ?I =
          sum (\<lambda>x. if x = a + int k - 1 then 1 else (0::nat)) ?I"
      by (rule sum.cong) auto
    also have "\<dots> = 1" using False by simp
    finally show ?thesis .
  qed
  have lo: "sum (\<lambda>x. of_bool (x - 1 \<notin> ?I)) ?I = (1::nat)"
  proof -
    have "sum (\<lambda>x. of_bool (x - 1 \<notin> ?I)) ?I =
          sum (\<lambda>x. if x = a then 1 else (0::nat)) ?I"
      by (rule sum.cong) auto
    also have "\<dots> = 1" using False by simp
    finally show ?thesis .
  qed
  show ?thesis using False hi lo by (simp add: ends_def sum.distrib)
qed

lemma open_sides_product:
  assumes "x \<in> X" "y \<in> Y" "z \<in> Z"
  shows "open_sides (X \<times> Y \<times> Z) (x, y, z) = ends X x + ends Y y + ends Z z"
  using assms by (simp add: open_sides_unfold ends_def)

lemma sum_open_sides_cube:
  "sum (open_sides ({a..<a + int k} \<times> {b..<b + int k} \<times> {c..<c + int k}))
       ({a..<a + int k} \<times> {b..<b + int k} \<times> {c..<c + int k}) = 6 * k * k"
proof -
  let ?X = "{a..<a + int k}" and ?Y = "{b..<b + int k}" and ?Z = "{c..<c + int k}"
  have "sum (open_sides (?X \<times> ?Y \<times> ?Z)) (?X \<times> ?Y \<times> ?Z) =
        (\<Sum>x\<in>?X. \<Sum>y\<in>?Y. \<Sum>z\<in>?Z. open_sides (?X \<times> ?Y \<times> ?Z) (x, y, z))"
    by (simp add: sum.cartesian_product)
  also have "\<dots> = (\<Sum>x\<in>?X. \<Sum>y\<in>?Y. \<Sum>z\<in>?Z. ends ?X x + ends ?Y y + ends ?Z z)"
    by (intro sum.cong refl) (simp add: open_sides_product)
  also have "\<dots> = k * k * sum (ends ?X) ?X + k * k * sum (ends ?Y) ?Y + k * k * sum (ends ?Z) ?Z"
    by (simp add: sum.distrib sum_distrib_left algebra_simps)
  also have "\<dots> = 6 * k * k"
    by (simp add: sum_ends_interval)
  finally show ?thesis .
qed

lemma get_visible_faces_coherent:
  "cache_coherent s \<Longrightarrow> fst (get_visible_faces s) = compute_faces s"
  by (simp add: cache_coherent_def get_visible_faces_def Let_def split: option.splits)

lemma face_count_single:
  "sum (open_sides {p}) {p} = 6"
  by (cases p) (simp add: open_sides_unfold)

lemma unit_step_cases:
  assumes "\<bar>a\<bar> + \<bar>b\<bar> + \<bar>c\<bar> = (1::int)"
  shows "(\<bar>a\<bar> = 1 \<and> b = 0 \<and> c = 0) \<or> (a = 0 \<and> \<bar>b\<bar> = 1 \<and> c = 0) \<or>
         (a = 0 \<and> b = 0 \<and> \<bar>c\<bar> = 1)"
proof -
  have a: "\<bar>a\<bar> = 0 \<or> \<bar>a\<bar> = 1" using assms by linarith
  have b: "\<bar>b\<bar> = 0 \<or> \<bar>b\<bar> = 1" using assms by linarith
  have c: "\<bar>c\<bar> = 0 \<or> \<bar>c\<bar> = 1" using assms by linarith
  from a b c assms show ?thesis by (elim disjE) simp_all
qed

lemma adjacent_cases:
  assumes "\<bar>x - x'\<bar> + \<bar>y - y'\<bar> + \<bar>z - z'\<bar> = (1::int)"
  shows "(x' = x + 1 \<and> y' = y \<and> z' = z) \<or> (x' = x - 1 \<and> y' = y \<and> z' = z) \<or>
         (x' = x \<and> y' = y + 1 \<and> z' = z) \<or> (x' = x \<and> y' = y - 1 \<and> z' = z) \<or>
         (x' = x \<and> y' = y \<and> z' = z + 1) \<or> (x' = x \<and> y' = y \<and> z' = z - 1)"
proof -
  have u: "\<And>d::int. \<bar>d\<bar> = 1 \<Longrightarrow> d = 1 \<or> d = - 1" by linarith
  from unit_step_cases [OF assms] show ?thesis
  proof (elim disjE conjE)
    assume "\<bar>x - x'\<bar> = 1" "y - y' = 0" "z - z' = 0"
    with u [of "x - x'"] show ?thesis by auto
  next
    assume "x - x' = 0" "\<bar>y - y'\<bar> = 1" "z - z' = 0"
    with u [of "y - y'"] show ?thesis by auto
  next
    assume "x - x' = 0" "y - y' = 0" "\<bar>z - z'\<bar> = 1"
    with u [of "z - z'"] show ?thesis by auto
  qed
qed

lemma face_count_pair:
  assumes "axis_adjacent p q"
  shows "sum (open_sides {p, q}) {p, q} = 10"
proof -
  obtain x y z x' y' z' where p: "p = (x, y, z)" and q: "q = (x', y', z')"
    by (metis prod_cases3)
  from assms have "\<bar>x - x'\<bar> + \<bar>y - y'\<bar> + \<bar>z - z'\<bar> = 1"
    by (simp add: axis_adjacent_def p q)
  from adjacent_cases [OF this] show ?thesis
    by (elim disjE conjE) (simp_all add: p q open_sides_unfold)
qed

text \<open>
  Claim C5. In every state reached from a fresh engine, \<open>get_visible_faces\<close> returns exactly
  6 face records when a single cell is occupied, exactly 10 when the occupied cells are two
  cells one step apart along one axis, and exactly \<open>6 * k\<^sup>2\<close> when the occupied cells are those
  of a filled \<open>k \<times> k \<times> k\<close> cube. The position in the grid does not matter: a neighbour outside
  the grid is never a key, so the face towards it is emitted.
\<close>

theorem visible_face_counts:
  assumes "run os (VoxelEngine_init g) = Inr s"
  shows "(map fst (voxels s) = [p] \<longrightarrow> length (fst (get_visible_faces s)) = 6) \<and>
         (set (map fst (voxels s)) = {p, q} \<and> axis_adjacent p q \<longrightarrow>
            length (fst (get_visible_faces s)) = 10) \<and>
         (set (map fst (voxels s)) = set (cube_cells x0 y0 z0 k) \<longrightarrow>
            length (fst (get_visible_faces s)) = 6 * k\<^sup>2)"
proof -
  obtain s' where "run os (VoxelEngine_init g) = Inr s'" "engine_inv s'"
    using run_inv [OF engine_inv_init] by blast
  with assms have inv: "engine_inv s" by simp
  then have d: "distinct (map fst (voxels s))" and c: "cache_coherent s"
    by (simp_all add: engine_inv_def)
  let ?K = "set (map fst (voxels s))"
  have len: "length (fst (get_visible_faces s)) = sum (open_sides ?K) ?K"
    using get_visible_faces_coherent [OF c] length_compute_faces_distinct [OF d] by simp
  have one: "map fst (voxels s) = [p] \<longrightarrow> length (fst (get_visible_faces s)) = 6"
  proof
    assume "map fst (voxels s) = [p]"
    then have "?K = {p}" by simp
    then show "length (fst (get_visible_faces s)) = 6"
      unfolding len by (simp only: face_count_single)
  qed
  have two: "?K = {p, q} \<and> axis_adjacent p q \<longrightarrow> length (fst (get_visible_faces s)) = 10"
  proof
    assume h: "?K = {p, q} \<and> axis_adjacent p q"
    then show "length (fst (get_visible_faces s)) = 10"
      unfolding len using face_count_pair [of p q] by simp
  qed
  have cube: "?K = set (cube_cells x0 y0 z0 k) \<longrightarrow>
      length (fst (get_visible_faces s)) = 6 * k\<^sup>2"
  proof
    assume "?K = set (cube_cells x0 y0 z0 k)"
    then have "?K = {x0..<x0 + int k} \<times> {y0..<y0 + int k} \<times> {z0..<z0 + int k}"
      by (simp only: set_cube_cells)
    then show "length (fst (get_visible_faces s)) = 6 * k\<^sup>2"
      unfolding len using sum_open_sides_cube [of x0 k y0 z0]
      by (simp add: power2_eq_square)
  qed
  from one two cube show ?thesis by blast
qed

theorem visible_face_counts_witness:
  "(\<exists>s. run [Place 5 5 5 None] (VoxelEngine_init 16) = Inr s \<and>
        map fst (voxels s) = [(5, 5, 5)] \<and> length (fst (get_visible_faces s)) = 6) \<and>
   (\<exists>s. run [Place 5 5 5 None, Place 6 5 5 None] (VoxelEngine_init 16) = Inr s \<and>
        set (map fst (voxels s)) = {(5, 5, 5), (6, 5, 5)} \<and>
        axis_adjacent (5, 5, 5) (6, 5, 5) \<and> length (fst (get_visible_faces s)) = 10) \<and>
   (\<exists>s. run [Place 0 0 0 None, Place 0 0 1 None, Place 0 1 0 None, Place 0 1 1 None,
             Place 1 0 0 None, Place 1 0 1 None, Place 1 1 0 None, Place 1 1 1 None]
            (VoxelEngine_init 16) = Inr s \<and>
        set (map fst (voxels s)) = set (cube_cells 0 0 0 2) \<and>
        length (fst (get_visible_faces s)) = 6 * 2\<^sup>2)"
proof -
  have "\<exists>s. run [Place 5 5 5 None] (VoxelEngine_init 16) = Inr s \<and>
        map fst (voxels s) = [(5, 5, 5)]"
    by (simp add: engine_eval)
  then obtain s1 where r1: "run [Place 5 5 5 None] (VoxelEngine_init 16) = Inr s1"
    and k1: "map fst (voxels s1) = [(5, 5, 5)]" by (elim exE conjE)
  have "\<exists>s. run [Place 5 5 5 None, Place 6 5 5 None] (VoxelEngine_init 16) = Inr s \<and>
        map fst (voxels s) = [(5, 5, 5), (6, 5, 5)]"
    by (simp add: engine_eval)
  then obtain s2 where
    r2: "run [Place 5 5 5 None, Place 6 5 5 None] (VoxelEngine_init 16) = Inr s2"
    and k2: "map fst (voxels s2) = [(5, 5, 5), (6, 5, 5)]" by (elim exE conjE)
  have a2: "axis_adjacent (5, 5, 5) (6, 5, 5)" by (simp add: axis_adjacent_def)
  have "\<exists>s. run [Place 0 0 0 None, Place 0 0 1 None, Place 0 1 0 None, Place 0 1 1 None,
             Place 1 0 0 None, Place 1 0 1 None, Place 1 1 0 None, Place 1 1 1 None]
            (VoxelEngine_init 16) = Inr s \<and>
        map fst (voxels s) = [(0, 0, 0), (0, 0, 1), (0, 1, 0), (0, 1, 1),
                              (1, 0, 0), (1, 0, 1), (1, 1, 0), (1, 1, 1)]"
    by (simp add: engine_eval)
  then obtain s3 where
    r3: "run [Place 0 0 0 None, Place 0 0 1 None, Place 0 1 0 None, Place 0 1 1 None,
             Place 1 0 0 None, Place 1 0 1 None, Place 1 1 0 None, Place 1 1 1 None]
            (VoxelEngine_init 16) = Inr s3"
    and k3: "map fst (voxels s3) = [(0, 0, 0), (0, 0, 1), (0, 1, 0), (0, 1, 1),
                              (1, 0, 0), (1, 0, 1), (1, 1, 0), (1, 1, 1)]" by (elim exE conjE)
  have c3: "cube_cells 0 0 0 2 = [(0, 0, 0), (0, 0, 1), (0, 1, 0), (0, 1, 1),
                              (1, 0, 0), (1, 0, 1), (1, 1, 0), (1, 1, 1)]"
    by code_simp
  have e3: "set (map fst (voxels s3)) = set (cube_cells 0 0 0 2)"
    by (simp only: k3 c3)
  have e2: "set (map fst (voxels s2)) = {(5, 5, 5), (6, 5, 5)}"
    by (simp add: k2)
  have w1: "length (fst (get_visible_faces s1)) = 6"
    by (rule visible_face_counts [OF r1, where p = "(5, 5, 5)", THEN conjunct1, THEN mp, OF k1])
  have w2: "length (fst (get_visible_faces s2)) = 10"
    by (rule visible_face_counts [OF r2, where p = "(5, 5, 5)" and q = "(6, 5, 5)", THEN conjunct2,
          THEN conjunct1, THEN mp, OF conjI [OF e2 a2]])
  have w3: "length (fst (get_visible_faces s3)) = 6 * 2\<^sup>2"
    by (rule visible_face_counts [OF r3, where ?x0.0 = 0 and ?y0.0 = 0 and ?z0.0 = 0 and k = 2, THEN conjunct2,
          THEN conjunct2, THEN mp, OF e3])
  show ?thesis
  proof (intro conjI)
    show "\<exists>s. run [Place 5 5 5 None] (VoxelEngine_init 16) = Inr s \<and>
        map fst (voxels s) = [(5, 5, 5)] \<and> length (fst (get_visible_faces s)) = 6"
      using r1 k1 w1 by (intro exI [of _ s1] conjI)
    show "\<exists>s. run [Place 5 5 5 None, Place 6 5 5 None] (VoxelEngine_init 16) = Inr s \<and>
        set (map fst (voxels s)) = {(5, 5, 5), (6, 5, 5)} \<and>
        axis_adjacent (5, 5, 5) (6, 5, 5) \<and> length (fst (get_visible_faces s)) = 10"
      using r2 e2 a2 w2 by (intro exI [of _ s2] conjI)
    show "\<exists>s. run [Place 0 0 0 None, Place 0 0 1 None, Place 0 1 0 None, Place 0 1 1 None,
             Place 1 0 0 None, Place 1 0 1 None, Place 1 1 0 None, Place 1 1 1 None]
            (VoxelEngine_init 16) = Inr s \<and>
        set (map fst (voxels s)) = set (cube_cells 0 0 0 2) \<and>
        length (fst (get_visible_faces s)) = 6 * 2\<^sup>2"
      using r3 e3 w3 by (intro exI [of _ s3] conjI)
  qed
qed

section \<open>Gesture state machine on a pinch sequence\<close>

lemmas gesture_eval =
  detect_from_scores_def transition_def debounce_def GestureDetector_init_def pinch_only_def
  Let_def

text \<open>
  Claim C7 as stated fails at the sixth tick: the machine is in RELEASE and the pinch score
  0.2 is below the release threshold 0.3, so it returns to HAND\_PRESENT there and not one
  tick later.
\<close>

theorem pinch_sequence_states_counterexample:
  "states_after (map pinch_only [0.2, 0.5, 0.75, 0.1, 0.95, 0.2, 0.05]) GestureDetector_init
     \<noteq> [''HAND_PRESENT'', ''PRE_PINCH'', ''PINCHED'', ''RELEASE'', ''RELEASE'', ''RELEASE'',
         ''HAND_PRESENT'']"
  by (simp add: gesture_eval)

text \<open>
  Claim C7, amended. Fed the pinch scores 0.2, 0.5, 0.75, 0.1, 0.95, 0.2, 0.05 on seven
  successive ticks, no other gesture scoring, the state after each tick is HAND\_PRESENT,
  PRE\_PINCH, PINCHED, RELEASE, RELEASE (the re-pinch at 0.95 is ignored), HAND\_PRESENT,
  HAND\_PRESENT; the same whether the detector starts fresh (IDLE) or in HAND\_PRESENT.
\<close>

theorem pinch_sequence_states:
  "states_after (map pinch_only [0.2, 0.5, 0.75, 0.1, 0.95, 0.2, 0.05]) GestureDetector_init
     = [''HAND_PRESENT'', ''PRE_PINCH'', ''PINCHED'', ''RELEASE'', ''RELEASE'', ''HAND_PRESENT'',
        ''HAND_PRESENT'']
   \<and> states_after (map pinch_only [0.2, 0.5, 0.75, 0.1, 0.95, 0.2, 0.05])
       (GestureDetector_init\<lparr>state := ''HAND_PRESENT''\<rparr>)
     = [''HAND_PRESENT'', ''PRE_PINCH'', ''PINCHED'', ''RELEASE'', ''RELEASE'', ''HAND_PRESENT'',
        ''HAND_PRESENT'']"
  by (simp add: gesture_eval)

end
